theory Spec2Isabelle
  imports Complex_Main "HOL-Library.Word"
begin

section \<open>The iambic tone generator: constants\<close>

text \<open>
  The sketch names its states and tone patterns with preprocessor constants over
  \<open>int\<close>.  The model keeps them as integers, so that a \<open>switch\<close> without a matching
  \<open>case\<close> does nothing, as in C.  \<open>TONE_ON\<close> and \<open>TONE_PAUSE\<close> share the values of
  \<open>DIT_INPUT\<close> and \<open>DAH_INPUT\<close>; they are used for a different variable.
\<close>

definition CODE_SPEED :: int where "CODE_SPEED = 20"

definition IDLE_STATE :: int where "IDLE_STATE = 0"
definition DIT_INPUT :: int where "DIT_INPUT = 1"
definition DAH_INPUT :: int where "DAH_INPUT = 2"
definition DIT_DAH_INPUT :: int where "DIT_DAH_INPUT = 3"
definition DAH_DIT_INPUT :: int where "DAH_DIT_INPUT = 4"
definition TONE_ON :: int where "TONE_ON = 1"
definition TONE_PAUSE :: int where "TONE_PAUSE = 2"

definition QUIET :: int where "QUIET = 0"
definition DIT :: int where "DIT = 1"
definition DAH :: int where "DAH = 2"
definition DIT_DAH :: int where "DIT_DAH = 3"
definition DAH_DIT :: int where "DAH_DIT = 4"

text \<open>
  The timing macros expand textually: \<open>WORD_TIME\<close> is \<open>60.0 / CODE_SPEED\<close>, so
  \<open>DIT_TIME\<close> is \<open>1000 * 60.0 / CODE_SPEED / 50\<close> and \<open>DAH_TIME\<close> is
  \<open>1000 * 60.0 / CODE_SPEED / 50 * 3\<close>: floating-point constants, fixed when the
  sketch is compiled.  Their values, 60 and 180, are whole numbers.
\<close>

definition DIT_TIME :: real where "DIT_TIME = 1000 * 60 / real_of_int CODE_SPEED / 50"
definition DAH_TIME :: real where "DAH_TIME = 1000 * 60 / real_of_int CODE_SPEED / 50 * 3"

text \<open>The conversion \<open>(unsigned long) x\<close> of a non-negative floating value truncates.\<close>

definition to_ulong :: "real \<Rightarrow> nat" where
  "to_ulong x = nat \<lfloor>x\<rfloor>"


section \<open>The clock and the floating-point sums\<close>

text \<open>
  \<open>millis()\<close> and \<open>toneTimer\<close> are \<open>unsigned long\<close>: 32 bits on the Arduino Nano, where
  the clock wraps around after \<open>2 ^ 32\<close> ms.  They are 32-bit words in the model, compared
  without sign as the sketch compares them.

  In \<open>toneTimer = millis() + DIT_TIME\<close> the clock reading is converted to floating
  point, the constant is added, and the sum is converted back.  On the Nano \<open>double\<close>
  is \<open>float\<close>, the IEEE single format: a significand of 24 bits, results rounded to the
  nearest value, a tie to the one with an even significand.  The clock reading and the
  two constants are whole numbers, and so is every sum of them after rounding; the model
  keeps these floating-point values as natural numbers.

  \<open>bitlen n\<close> is the number of binary digits of \<open>n\<close>, \<open>ulp n\<close> the distance between
  neighbouring single-precision values at \<open>n\<close> (1 below \<open>2 ^ 24\<close>), and \<open>single n\<close> the
  single-precision value nearest to \<open>n\<close>.
\<close>

fun bitlen :: "nat \<Rightarrow> nat" where
  "bitlen n = (if n = 0 then 0 else Suc (bitlen (n div 2)))"

declare bitlen.simps [simp del]

definition ulp :: "nat \<Rightarrow> nat" where
  "ulp n = 2 ^ (bitlen n - 24)"

definition single :: "nat \<Rightarrow> nat" where
  "single n =
     (let u = ulp n; q = n div u; r = n mod u
      in if 2 * r < u then q * u
         else if u < 2 * r then (q + 1) * u
         else if even q then q * u
         else (q + 1) * u)"

text \<open>
  The floating-point value of \<open>millis() + d\<close> for a constant \<open>d\<close> that is a whole
  number (\<open>to_ulong d\<close> is that number): \<open>single (unat now)\<close> is the clock reading
  converted to floating point, and the sum of the two floating-point values is rounded
  in its turn.
\<close>

definition timer_after :: "32 word \<Rightarrow> real \<Rightarrow> nat" where
  "timer_after now d = single (single (unat now) + to_ulong d)"


section \<open>The global variables\<close>

text \<open>
  The globals of the sketch that the two state machines and the speed setter read or
  write.  Two fields are not variables of the sketch.  \<open>sounding\<close> is the state of the
  tone output, switched on by \<open>tone(TONE_PIN, TONE_FREQ)\<close> and off by
  \<open>noTone(TONE_PIN)\<close>.  \<open>timer_undefined\<close> records that a floating-point sum of
  \<open>2 ^ 32\<close> or more was converted to \<open>unsigned long\<close>: C does not define the result of
  that conversion.  Times are in milliseconds.  \<open>ditTime\<close> and \<open>dahTime\<close> are
  \<open>unsigned long\<close> as well; for a positive speed \<open>setWordSpeed\<close> stores at most 1200 and
  3600 in them, and they are natural numbers in the model.
\<close>

record keyer =
  state :: int
  toneState :: int
  lastTone :: int
  toneType :: int
  toneTimer :: "32 word"
  ditTime :: nat
  dahTime :: nat
  sounding :: bool
  timer_undefined :: bool

text \<open>
  Storing the floating-point value \<open>f\<close> in \<open>toneTimer\<close>.  Where C leaves the conversion
  undefined the model stores \<open>f\<close> modulo \<open>2 ^ 32\<close> and sets \<open>timer_undefined\<close>, so that a
  statement about the timer can exclude the case.
\<close>

definition store_timer :: "nat \<Rightarrow> keyer \<Rightarrow> keyer" where
  "store_timer f s =
     s\<lparr>toneTimer := of_nat f, timer_undefined := timer_undefined s \<or> 2 ^ 32 \<le> f\<rparr>"


section \<open>The speed setter\<close>

text \<open>
  \<^verbatim>\<open>
  void setWordSpeed(int speed) {
    unsigned long wordTime = (unsigned long)(60.0 / (float)speed);
    ditTime = (unsigned long)(1000.0 * (float)wordTime / 50.0);
    dahTime = (unsigned long)((float)ditTime * 3.0);
  }
  \<close>
  The local \<open>wordTime\<close> hides the global of the same name.  The function is meant for
  \<open>speed > 0\<close>, and there its floating-point operations are exact: the model reads them
  as operations on reals.  For other arguments C leaves the conversion to
  \<open>unsigned long\<close> undefined; the model then stores zero in both variables, and no
  theorem below depends on what is stored in that case.
\<close>

definition setWordSpeed :: "int \<Rightarrow> keyer \<Rightarrow> keyer" where
  "setWordSpeed speed s =
     (let wordTime = to_ulong (60 / real_of_int speed);
          ditTime' = to_ulong (1000 * real wordTime / 50);
          dahTime' = to_ulong (real ditTime' * 3)
      in s\<lparr>ditTime := ditTime', dahTime := dahTime'\<rparr>)"


section \<open>The paddle state machine\<close>

text \<open>
  \<open>updateMainState\<close> reads the two paddle pins (\<open>True\<close>: the paddle is closed) and
  updates \<open>state\<close> and \<open>toneType\<close>.
\<close>

definition updateMainState :: "bool \<Rightarrow> bool \<Rightarrow> keyer \<Rightarrow> keyer" where
  "updateMainState ditKeyInput dahKeyInput s =
     (if state s = IDLE_STATE then
        (if ditKeyInput then s\<lparr>toneType := DIT, state := DIT_INPUT\<rparr>
         else if dahKeyInput then s\<lparr>toneType := DAH, state := DAH_INPUT\<rparr>
         else s\<lparr>toneType := QUIET\<rparr>)
      else if state s = DIT_INPUT then
        (if \<not> ditKeyInput \<and> \<not> dahKeyInput then s\<lparr>toneType := QUIET, state := IDLE_STATE\<rparr>
         else if ditKeyInput \<and> dahKeyInput then s\<lparr>toneType := DIT_DAH, state := DIT_DAH_INPUT\<rparr>
         else s)
      else if state s = DAH_INPUT then
        (if \<not> ditKeyInput \<and> \<not> dahKeyInput then s\<lparr>toneType := QUIET, state := IDLE_STATE\<rparr>
         else if ditKeyInput \<and> dahKeyInput then s\<lparr>toneType := DAH_DIT, state := DIT_DAH_INPUT\<rparr>
         else s)
      else if state s = DIT_DAH_INPUT then
        (if \<not> ditKeyInput \<or> \<not> dahKeyInput then s\<lparr>toneType := QUIET, state := IDLE_STATE\<rparr>
         else s)
      else s)"


section \<open>The tone state machine\<close>

text \<open>
  \<open>updateToneState\<close> takes the tone pattern (its parameter hides the global
  \<open>toneType\<close>) and the clock; \<open>now\<close> is the reading of \<open>millis()\<close> for this call.
  Where the sketch reads \<open>millis()\<close> a second time to set the timer, the model takes
  the same reading.  It returns \<open>done\<close> and the new globals.  The two places that
  start a dit, and the two that start a dah, are the same four statements in the
  sketch; the model names them \<open>start_dit\<close> and \<open>start_dah\<close>.
\<close>

definition start_dit :: "32 word \<Rightarrow> keyer \<Rightarrow> keyer" where
  "start_dit now s =
     (store_timer (timer_after now DIT_TIME) s)
       \<lparr>sounding := True, lastTone := DIT, toneState := TONE_ON\<rparr>"

definition start_dah :: "32 word \<Rightarrow> keyer \<Rightarrow> keyer" where
  "start_dah now s =
     (store_timer (timer_after now DAH_TIME) s)
       \<lparr>sounding := True, lastTone := DAH, toneState := TONE_ON\<rparr>"

definition updateToneState :: "int \<Rightarrow> 32 word \<Rightarrow> keyer \<Rightarrow> bool \<times> keyer" where
  "updateToneState tt now s =
     (if toneState s = IDLE_STATE then
        (if tt = DIT \<or> tt = DIT_DAH then (False, start_dit now s)
         else if tt = DAH \<or> tt = DAH_DIT then (False, start_dah now s)
         else (False, s))
      else if toneState s = TONE_ON then
        (if now > toneTimer s then
           (False, (store_timer (timer_after now DIT_TIME) (s\<lparr>sounding := False\<rparr>))
                     \<lparr>toneState := TONE_PAUSE\<rparr>)
         else (False, s))
      else if toneState s = TONE_PAUSE then
        (if now > toneTimer s then
           (if tt = QUIET \<or> tt = DIT \<or> tt = DAH then
              (True, s\<lparr>toneState := IDLE_STATE, lastTone := QUIET\<rparr>)
            else if tt = DIT_DAH \<or> tt = DAH_DIT then
              (if DIT = lastTone s then (False, start_dah now s)
               else (False, start_dit now s))
            else (False, s))
         else (False, s))
      else (False, s))"


section \<open>Start-up and the main loop\<close>

text \<open>
  C initialises the globals to zero; the tone output is silent.  \<open>setup()\<close> (here
  \<open>sketch_setup\<close>) sets the speed and the two states; \<open>toneType\<close> and \<open>toneTimer\<close> keep
  their zero.
\<close>

definition power_on :: keyer where
  "power_on = \<lparr>state = 0, toneState = 0, lastTone = 0, toneType = 0, toneTimer = 0,
               ditTime = 0, dahTime = 0, sounding = False, timer_undefined = False\<rparr>"

definition sketch_setup :: "keyer \<Rightarrow> keyer" where
  "sketch_setup s = (setWordSpeed CODE_SPEED s)
               \<lparr>toneState := IDLE_STATE, state := IDLE_STATE, lastTone := QUIET\<rparr>"

text \<open>The sketch after \<open>setup()\<close>.\<close>

definition started_up :: keyer where
  "started_up = sketch_setup power_on"

text \<open>
  One pass of \<open>loop\<close>: \<open>updateCommands(); updateMainState(); updateToneState(toneType)\<close>.
  \<open>updateCommands\<close> reads the serial line; besides its own parser state and what it
  prints, the only thing it can change is the speed, by the call of \<open>setWordSpeed\<close> in
  its \<open>SET_SPEED\<close> branch.  The model keeps that call: a tick carries its argument,
  if the call is made, the two paddle readings and the clock reading.
\<close>

record tick =
  speedCmd :: "int option"
  ditKey :: bool
  dahKey :: bool
  millis :: "32 word"

definition updateCommands :: "int option \<Rightarrow> keyer \<Rightarrow> keyer" where
  "updateCommands cmd s = (case cmd of None \<Rightarrow> s | Some speed \<Rightarrow> setWordSpeed speed s)"

definition loop :: "tick \<Rightarrow> keyer \<Rightarrow> keyer" where
  "loop t s =
     (let s1 = updateCommands (speedCmd t) s;
          s2 = updateMainState (ditKey t) (dahKey t) s1
      in snd (updateToneState (toneType s2) (millis t) s2))"

fun run :: "tick list \<Rightarrow> keyer \<Rightarrow> keyer" where
  "run [] s = s"
| "run (t # ts) s = run ts (loop t s)"


section \<open>Observing a run\<close>

text \<open>
  What the tone output does during one pass of \<open>loop\<close>: a tone starts (with the
  element recorded in \<open>lastTone\<close>), a tone stops, or nothing changes.  Each event
  carries the clock reading of its tick.
\<close>

datatype event = Start "32 word" int | Stop "32 word"

definition observe :: "tick \<Rightarrow> keyer \<Rightarrow> event list" where
  "observe t s =
     (if \<not> sounding s \<and> sounding (loop t s) then [Start (millis t) (lastTone (loop t s))]
      else if sounding s \<and> \<not> sounding (loop t s) then [Stop (millis t)]
      else [])"

fun trace :: "tick list \<Rightarrow> keyer \<Rightarrow> event list" where
  "trace [] s = []"
| "trace (t # ts) s = observe t s @ trace ts (loop t s)"

fun elements :: "event list \<Rightarrow> int list" where
  "elements [] = []"
| "elements (Start c e # evs) = e # elements evs"
| "elements (Stop c # evs) = elements evs"


section \<open>Properties of runs\<close>

text \<open>
  \<open>main_inv\<close> ties the tone pattern to the paddle state, \<open>tone_wf\<close> the tone output and
  \<open>lastTone\<close> to the state of the tone machine; both hold after \<open>setup()\<close> and after
  every pass of \<open>loop\<close>.
\<close>

definition main_inv :: "keyer \<Rightarrow> bool" where
  "main_inv s \<longleftrightarrow>
     (state s = IDLE_STATE \<and> toneType s = QUIET) \<or>
     (state s = DIT_INPUT \<and> toneType s = DIT) \<or>
     (state s = DAH_INPUT \<and> toneType s = DAH) \<or>
     (state s = DIT_DAH_INPUT \<and> (toneType s = DIT_DAH \<or> toneType s = DAH_DIT))"

definition tone_wf :: "keyer \<Rightarrow> bool" where
  "tone_wf s \<longleftrightarrow>
     toneState s = IDLE_STATE \<and> \<not> sounding s \<or>
     (toneState s = TONE_ON \<and> sounding s \<or> toneState s = TONE_PAUSE \<and> \<not> sounding s) \<and>
     (lastTone s = DIT \<or> lastTone s = DAH)"


text \<open>
  \<open>start_up_speed\<close>: the two durations are the ones that \<open>setup()\<close> configured.
  \<open>exact_range c\<close>: the clock reading \<open>c\<close> is small enough for the floating-point sums
  \<open>c + DIT_TIME\<close> and \<open>c + DAH_TIME\<close> to be exact.
\<close>

definition start_up_speed :: "keyer \<Rightarrow> bool" where
  "start_up_speed s \<longleftrightarrow>
     ditTime s = ditTime started_up \<and> dahTime s = dahTime started_up"

definition exact_range :: "32 word \<Rightarrow> bool" where
  "exact_range c \<longleftrightarrow> unat c + to_ulong DAH_TIME \<le> 2 ^ 24"

text \<open>
  \<open>deadline c d\<close> is what the sketch stores in \<open>toneTimer\<close> for \<open>millis() + d\<close> at the
  clock reading \<open>c\<close>.  \<open>follows a b\<close>: the event \<open>b\<close> may come next after the event \<open>a\<close>;
  a tone that started stops only after the deadline stored at its start, and after a
  stop the next tone starts only after the deadline stored at the stop.
\<close>

definition deadline :: "32 word \<Rightarrow> real \<Rightarrow> 32 word" where
  "deadline c d = of_nat (timer_after c d)"

definition element_time :: "int \<Rightarrow> real" where
  "element_time e = (if e = DIT then DIT_TIME else DAH_TIME)"

fun follows :: "event \<Rightarrow> event \<Rightarrow> bool" where
  "follows (Stop c1) (Start c2 e) = (deadline c1 DIT_TIME < c2)"
| "follows (Start c1 e) (Stop c2) = (deadline c1 (element_time e) < c2)"
| "follows _ _ = False"

fun clock_of :: "event \<Rightarrow> 32 word" where
  "clock_of (Start c e) = c"
| "clock_of (Stop c) = c"

fun gaps_ok :: "event list \<Rightarrow> bool" where
  "gaps_ok (a # b # evs) = (follows a b \<and> gaps_ok (b # evs))"
| "gaps_ok _ = True"

text \<open>
  The state of the tone machine after the event \<open>prev\<close> (none yet: \<open>None\<close>), when no
  later tick reads a clock below \<open>lo\<close>.
\<close>

fun tone_inv :: "event option \<Rightarrow> 32 word \<Rightarrow> keyer \<Rightarrow> bool" where
  "tone_inv None lo s = (toneState s = IDLE_STATE \<and> \<not> sounding s)"
| "tone_inv (Some (Start c e)) lo s =
     (toneState s = TONE_ON \<and> sounding s \<and> toneTimer s = deadline c (element_time e))"
| "tone_inv (Some (Stop c)) lo s =
     (\<not> sounding s \<and>
      (toneState s = TONE_PAUSE \<and> toneTimer s = deadline c DIT_TIME \<or>
       toneState s = IDLE_STATE \<and> deadline c DIT_TIME < lo))"

definition tone_step :: "event option \<Rightarrow> 32 word \<Rightarrow> keyer \<Rightarrow> event list \<Rightarrow> bool" where
  "tone_step prev now s' evs \<longleftrightarrow>
     (evs = [] \<and> tone_inv prev now s') \<or>
     (\<exists>ev. evs = [ev] \<and> (\<forall>p. prev = Some p \<longrightarrow> follows p ev) \<and>
           tone_inv (Some ev) now s')"

text \<open>The alternating sequence of \<open>n\<close> elements that begins with \<open>e\<close>.\<close>

definition other :: "int \<Rightarrow> int" where
  "other e = (if e = DIT then DAH else DIT)"

fun alternation :: "int \<Rightarrow> nat \<Rightarrow> int list" where
  "alternation e 0 = []"
| "alternation e (Suc n) = e # alternation (other e) n"

text \<open>
  \<open>squeeze_inv\<close>: a paddle is being sent and an element or its pause is in progress.
  \<open>in_progress e s\<close>: the element \<open>e\<close>, if it or its pause is in progress in \<open>s\<close>.
\<close>

definition squeeze_inv :: "keyer \<Rightarrow> bool" where
  "squeeze_inv s \<longleftrightarrow>
     (state s = DIT_INPUT \<and> toneType s = DIT \<or>
      state s = DAH_INPUT \<and> toneType s = DAH \<or>
      state s = DIT_DAH_INPUT \<and> (toneType s = DIT_DAH \<or> toneType s = DAH_DIT)) \<and>
     (toneState s = TONE_ON \<and> sounding s \<or> toneState s = TONE_PAUSE \<and> \<not> sounding s) \<and>
     (lastTone s = DIT \<or> lastTone s = DAH)"

definition in_progress :: "int \<Rightarrow> keyer \<Rightarrow> int list" where
  "in_progress e s = (if toneState s \<noteq> IDLE_STATE \<and> lastTone s = e then [e] else [])"


section \<open>Concrete runs\<close>

text \<open>
  The dit paddle closes at 40 ms: a dit sounds, with its deadline at 100 ms.  Read
  again at 101 ms, the dit has stopped and its pause runs to 161 ms.
\<close>

definition dit_tick :: tick where
  "dit_tick = \<lparr>speedCmd = None, ditKey = True, dahKey = False, millis = 40\<rparr>"

definition dit_sounding :: keyer where
  "dit_sounding = loop dit_tick started_up"

definition dit_pausing :: keyer where
  "dit_pausing =
     loop \<lparr>speedCmd = None, ditKey = True, dahKey = False, millis = 101\<rparr> dit_sounding"

text \<open>The same with the dah paddle.\<close>

definition dah_sounding :: keyer where
  "dah_sounding =
     loop \<lparr>speedCmd = None, ditKey = False, dahKey = True, millis = 40\<rparr> started_up"

text \<open>
  One millisecond after the dit paddle the dah paddle closes as well; at 101 ms the
  dit has stopped and its pause runs to 161 ms.
\<close>

definition both_tick :: tick where
  "both_tick = \<lparr>speedCmd = None, ditKey = True, dahKey = True, millis = 41\<rparr>"

definition squeezing :: keyer where
  "squeezing = loop both_tick dit_sounding"

definition squeeze_pause :: keyer where
  "squeeze_pause =
     loop \<lparr>speedCmd = None, ditKey = True, dahKey = True, millis = 101\<rparr> squeezing"

text \<open>
  A squeeze after 16777 s: the dit paddle closes at 16777000 ms, the dah paddle one
  millisecond later, and the dit is found over at 16777061 ms; its pause runs to
  16777121 ms.
\<close>

definition late_squeeze :: "tick list" where
  "late_squeeze =
     [\<lparr>speedCmd = None, ditKey = True, dahKey = False, millis = 16777000\<rparr>,
      \<lparr>speedCmd = None, ditKey = True, dahKey = True, millis = 16777001\<rparr>,
      \<lparr>speedCmd = None, ditKey = True, dahKey = True, millis = 16777061\<rparr>]"

definition late_pause :: keyer where
  "late_pause = run late_squeeze started_up"

text \<open>
  The dit paddle is held from 0 ms on; at 10 ms, while the first dit sounds, the
  command layer sets the speed to 10 words per minute.
\<close>

definition speed_change_run :: "tick list" where
  "speed_change_run =
     [\<lparr>speedCmd = None, ditKey = True, dahKey = False, millis = 0\<rparr>,
      \<lparr>speedCmd = Some 10, ditKey = True, dahKey = False, millis = 10\<rparr>,
      \<lparr>speedCmd = None, ditKey = True, dahKey = False, millis = 61\<rparr>,
      \<lparr>speedCmd = None, ditKey = True, dahKey = False, millis = 122\<rparr>,
      \<lparr>speedCmd = None, ditKey = True, dahKey = False, millis = 123\<rparr>]"



text \<open>The dah paddle is held from 0 ms on.\<close>

definition dah_run :: "tick list" where
  "dah_run =
     [\<lparr>speedCmd = None, ditKey = False, dahKey = True, millis = 0\<rparr>,
      \<lparr>speedCmd = None, ditKey = False, dahKey = True, millis = 181\<rparr>,
      \<lparr>speedCmd = None, ditKey = False, dahKey = True, millis = 242\<rparr>,
      \<lparr>speedCmd = None, ditKey = False, dahKey = True, millis = 243\<rparr>]"

text \<open>
  A squeeze read at every millisecond that matters: the dit stops at 61 ms, and the
  loop comes by at 121 ms, one dit time later, and at 122 ms.
\<close>

definition exact_tick_run :: "tick list" where
  "exact_tick_run =
     [\<lparr>speedCmd = None, ditKey = True, dahKey = False, millis = 0\<rparr>,
      \<lparr>speedCmd = None, ditKey = True, dahKey = True, millis = 1\<rparr>,
      \<lparr>speedCmd = None, ditKey = True, dahKey = True, millis = 61\<rparr>,
      \<lparr>speedCmd = None, ditKey = True, dahKey = True, millis = 121\<rparr>,
      \<lparr>speedCmd = None, ditKey = True, dahKey = True, millis = 122\<rparr>]"


section \<open>Basic facts\<close>

lemmas state_defs =
  IDLE_STATE_def DIT_INPUT_def DAH_INPUT_def DIT_DAH_INPUT_def DAH_DIT_INPUT_def
  TONE_ON_def TONE_PAUSE_def

lemmas tone_defs = QUIET_def DIT_def DAH_def DIT_DAH_def DAH_DIT_def

lemma DIT_TIME_eq: "DIT_TIME = 60"
  by (simp add: DIT_TIME_def CODE_SPEED_def)

lemma DAH_TIME_eq: "DAH_TIME = 180"
  by (simp add: DAH_TIME_def CODE_SPEED_def)

lemma to_ulong_eqI: "x = real n \<Longrightarrow> to_ulong x = n"
  by (simp add: to_ulong_def)

lemma to_ulong_DIT: "to_ulong DIT_TIME = 60"
  unfolding DIT_TIME_eq by (rule to_ulong_eqI) simp

lemma to_ulong_DAH: "to_ulong DAH_TIME = 180"
  unfolding DAH_TIME_eq by (rule to_ulong_eqI) simp

text \<open>
  For a positive speed the word time is the integer quotient \<open>60 div speed\<close>: the
  fraction of a second is cut off before the dit time is computed from it.
\<close>

lemma wordTime_div:
  assumes "0 < speed"
  shows "to_ulong (60 / real_of_int speed) = nat (60 div speed)"
proof -
  have "\<lfloor>real_of_int 60 / real_of_int speed\<rfloor> = 60 div speed"
    by (rule floor_divide_of_int_eq)
  then show ?thesis by (simp add: to_ulong_def)
qed

lemma setWordSpeed_eq:
  assumes "0 < speed"
  shows "setWordSpeed speed s =
     s\<lparr>ditTime := 20 * nat (60 div speed), dahTime := 60 * nat (60 div speed)\<rparr>"
proof -
  let ?w = "nat (60 div speed)"
  have d: "to_ulong (1000 * real ?w / 50) = 20 * ?w"
    by (rule to_ulong_eqI) simp
  have h: "to_ulong (real (20 * ?w) * 3) = 60 * ?w"
    by (rule to_ulong_eqI) simp
  show ?thesis
    unfolding setWordSpeed_def Let_def wordTime_div [OF assms] d h ..
qed


section \<open>Single precision\<close>

lemma bitlen_le: "n < 2 ^ k \<Longrightarrow> bitlen n \<le> k"
proof (induction k arbitrary: n)
  case 0
  then have "n = 0" by simp
  then show ?case by (subst bitlen.simps) simp
next
  case (Suc k)
  show ?case
  proof (cases "n = 0")
    case True
    then show ?thesis by (subst bitlen.simps) simp
  next
    case False
    from Suc.prems have "n div 2 < 2 ^ k" by simp
    then have "bitlen (n div 2) \<le> k" by (rule Suc.IH)
    with False show ?thesis by (subst bitlen.simps) simp
  qed
qed

lemma bitlen_pow: "bitlen (2 ^ k) = Suc k"
proof (induction k)
  case 0
  have "bitlen 1 = Suc (bitlen 0)" by (subst bitlen.simps) simp
  also have "bitlen 0 = 0" by (subst bitlen.simps) simp
  finally show ?case by simp
next
  case (Suc k)
  have "bitlen (2 ^ Suc k) = Suc (bitlen (2 ^ Suc k div 2))"
    by (subst bitlen.simps) simp
  with Suc show ?case by simp
qed

text \<open>Whole numbers up to \<open>2 ^ 24\<close> are single-precision values.\<close>

lemma single_exact:
  assumes "n \<le> 2 ^ 24"
  shows "single n = n"
proof (cases "n = 2 ^ 24")
  case True
  have "bitlen n = 25" unfolding True using bitlen_pow [of 24] by simp
  then have "ulp n = 2" by (simp add: ulp_def)
  then show ?thesis by (simp add: single_def Let_def True)
next
  case False
  with assms have "n < 2 ^ 24" by simp
  then have "bitlen n \<le> 24" by (rule bitlen_le)
  then have "ulp n = 1" by (simp add: ulp_def)
  then show ?thesis by (simp add: single_def)
qed

text \<open>So the sum is exact as long as it does not exceed \<open>2 ^ 24\<close>.\<close>

lemma timer_after_exact:
  assumes "unat now + to_ulong d \<le> 2 ^ 24"
  shows "timer_after now d = unat now + to_ulong d"
proof -
  from assms have "unat now \<le> 2 ^ 24" by simp
  then have "single (unat now) = unat now" by (rule single_exact)
  with single_exact [OF assms] show ?thesis by (simp add: timer_after_def)
qed

lemma deadline_exact:
  assumes "unat c + to_ulong d \<le> 2 ^ 24"
  shows "deadline c d = c + of_nat (to_ulong d)"
    and "unat (deadline c d) = unat c + to_ulong d"
proof -
  show "deadline c d = c + of_nat (to_ulong d)"
    by (simp add: deadline_def timer_after_exact [OF assms])
  have "unat (deadline c d) = (unat c + to_ulong d) mod 2 ^ LENGTH(32)"
    unfolding deadline_def timer_after_exact [OF assms] by (rule unat_of_nat)
  moreover from assms have "unat c + to_ulong d < 2 ^ LENGTH(32)" by simp
  ultimately show "unat (deadline c d) = unat c + to_ulong d" by simp
qed

lemma not_undefined_exact:
  assumes "unat c + to_ulong d \<le> 2 ^ 24"
  shows "\<not> 2 ^ 32 \<le> timer_after c d"
  using assms by (simp add: timer_after_exact)

text \<open>
  Beyond \<open>2 ^ 24\<close> it is not.  At 16777217 ms the sum with 60 is 16777276, one less
  than the true sum, and the sum with 180 is 16777396; at \<open>2 ^ 29 + 31\<close> the sum with
  60 is 33 more than the clock reading; at \<open>2 ^ 30 + 63\<close> it is \<open>2 ^ 30\<close>, less than
  the clock reading itself.
\<close>

lemmas float_eval =
  timer_after_def single_def ulp_def bitlen.simps Let_def to_ulong_DIT to_ulong_DAH

lemma timer_after_rounds:
  "timer_after 16777217 DIT_TIME = 16777276"
  "timer_after 16777217 DAH_TIME = 16777396"
  "timer_after 536870943 DIT_TIME = 536870976"
  "timer_after 1073741887 DIT_TIME = 1073741824"
  by (simp_all add: float_eval)


section \<open>The fields that each function writes\<close>

lemmas tone_simps =
  updateToneState_def start_dit_def start_dah_def store_timer_def state_defs tone_defs

text \<open>The tone machine never reads \<open>ditTime\<close> or \<open>dahTime\<close>.\<close>

lemma updateToneState_ignores_speed:
  "updateToneState tt now (s\<lparr>ditTime := a, dahTime := b\<rparr>) =
     (fst (updateToneState tt now s),
      (snd (updateToneState tt now s))\<lparr>ditTime := a, dahTime := b\<rparr>)"
  by (simp add: tone_simps)

text \<open>Each machine leaves the other machine's variables alone.\<close>

lemma tone_fields_updateMainState [simp]:
  "toneState (updateMainState d h s) = toneState s"
  "toneTimer (updateMainState d h s) = toneTimer s"
  "lastTone (updateMainState d h s) = lastTone s"
  "sounding (updateMainState d h s) = sounding s"
  "timer_undefined (updateMainState d h s) = timer_undefined s"
  by (simp_all add: updateMainState_def)

lemma fields_updateCommands [simp]:
  "toneState (updateCommands c s) = toneState s"
  "toneTimer (updateCommands c s) = toneTimer s"
  "lastTone (updateCommands c s) = lastTone s"
  "sounding (updateCommands c s) = sounding s"
  "timer_undefined (updateCommands c s) = timer_undefined s"
  "state (updateCommands c s) = state s"
  "toneType (updateCommands c s) = toneType s"
  by (simp_all add: updateCommands_def setWordSpeed_def Let_def split: option.split)

lemma main_fields_updateToneState [simp]:
  "state (snd (updateToneState tt now s)) = state s"
  "toneType (snd (updateToneState tt now s)) = toneType s"
  "ditTime (snd (updateToneState tt now s)) = ditTime s"
  "dahTime (snd (updateToneState tt now s)) = dahTime s"
  by (simp_all add: tone_simps)

lemma loop_eq:
  "loop t s =
     snd (updateToneState
       (toneType (updateMainState (ditKey t) (dahKey t) (updateCommands (speedCmd t) s)))
       (millis t)
       (updateMainState (ditKey t) (dahKey t) (updateCommands (speedCmd t) s)))"
  by (simp add: loop_def Let_def)

lemma trace_append: "trace (xs @ ys) s = trace xs s @ trace ys (run xs s)"
  by (induction xs arbitrary: s) simp_all

lemma elements_append: "elements (xs @ ys) = elements xs @ elements ys"
  by (induction xs rule: elements.induct) simp_all

lemma run_append: "run (xs @ ys) s = run ys (run xs s)"
  by (induction xs arbitrary: s) simp_all


section \<open>The concrete runs, evaluated\<close>

lemma started_up_eq:
  "started_up = \<lparr>state = 0, toneState = 0, lastTone = 0, toneType = 0, toneTimer = 0,
                 ditTime = 60, dahTime = 180, sounding = False, timer_undefined = False\<rparr>"
  by (simp add: started_up_def sketch_setup_def power_on_def setWordSpeed_eq CODE_SPEED_def
      state_defs tone_defs)

lemmas run_simps =
  loop_def updateCommands_def updateMainState_def tone_simps setWordSpeed_eq float_eval

lemma dit_sounding_eq:
  "dit_sounding = \<lparr>state = 1, toneState = 1, lastTone = 1, toneType = 1, toneTimer = 100,
                   ditTime = 60, dahTime = 180, sounding = True, timer_undefined = False\<rparr>"
  by (simp add: dit_sounding_def dit_tick_def started_up_eq run_simps)

lemma dit_pausing_eq:
  "dit_pausing = \<lparr>state = 1, toneState = 2, lastTone = 1, toneType = 1, toneTimer = 161,
                  ditTime = 60, dahTime = 180, sounding = False, timer_undefined = False\<rparr>"
  by (simp add: dit_pausing_def dit_sounding_eq run_simps)

lemma dah_sounding_eq:
  "dah_sounding = \<lparr>state = 2, toneState = 1, lastTone = 2, toneType = 2, toneTimer = 220,
                   ditTime = 60, dahTime = 180, sounding = True, timer_undefined = False\<rparr>"
  by (simp add: dah_sounding_def started_up_eq run_simps)

lemma squeezing_eq:
  "squeezing = \<lparr>state = 3, toneState = 1, lastTone = 1, toneType = 3, toneTimer = 100,
                ditTime = 60, dahTime = 180, sounding = True, timer_undefined = False\<rparr>"
  by (simp add: squeezing_def both_tick_def dit_sounding_eq run_simps)

lemma squeeze_pause_eq:
  "squeeze_pause = \<lparr>state = 3, toneState = 2, lastTone = 1, toneType = 3, toneTimer = 161,
                    ditTime = 60, dahTime = 180, sounding = False, timer_undefined = False\<rparr>"
  by (simp add: squeeze_pause_def squeezing_eq run_simps)

lemma late_pause_eq:
  "late_pause = \<lparr>state = 3, toneState = 2, lastTone = 1, toneType = 3, toneTimer = 16777121,
                 ditTime = 60, dahTime = 180, sounding = False, timer_undefined = False\<rparr>"
  by (simp add: late_pause_def late_squeeze_def started_up_eq run_simps)


lemma dah_trace: "trace dah_run started_up = [Start 0 DAH, Stop 181, Start 243 DAH]"
  by (simp add: dah_run_def started_up_eq observe_def run_simps)

lemma exact_tick_trace:
  "trace exact_tick_run started_up = [Start 0 DIT, Stop 61, Start 122 DAH]"
  by (simp add: exact_tick_run_def started_up_eq observe_def run_simps)


section \<open>Invariants of the two machines\<close>

lemma main_inv_updateMainState: "main_inv s \<Longrightarrow> main_inv (updateMainState d h s)"
  by (auto simp: main_inv_def updateMainState_def state_defs tone_defs)

lemma main_inv_loop:
  assumes "main_inv s"
  shows "main_inv (loop t s)"
proof -
  have "main_inv (updateCommands (speedCmd t) s)"
    using assms by (simp add: main_inv_def)
  then have "main_inv (updateMainState (ditKey t) (dahKey t) (updateCommands (speedCmd t) s))"
    by (rule main_inv_updateMainState)
  then show ?thesis
    by (simp add: main_inv_def loop_eq)
qed

lemma main_inv_started_up: "main_inv started_up"
  by (simp add: main_inv_def started_up_eq state_defs tone_defs)

lemma main_inv_run: "main_inv s \<Longrightarrow> main_inv (run ts s)"
  by (induction ts arbitrary: s) (simp_all add: main_inv_loop)

lemma tone_wf_updateToneState:
  "tone_wf s \<Longrightarrow> tone_wf (snd (updateToneState tt now s))"
  by (auto simp: tone_wf_def tone_simps)

lemma tone_wf_loop:
  assumes "tone_wf s"
  shows "tone_wf (loop t s)"
proof -
  have "tone_wf (updateMainState (ditKey t) (dahKey t) (updateCommands (speedCmd t) s))"
    using assms by (simp add: tone_wf_def)
  then show ?thesis
    unfolding loop_eq by (rule tone_wf_updateToneState)
qed

lemma tone_wf_started_up: "tone_wf started_up"
  by (simp add: tone_wf_def started_up_eq state_defs)

lemma tone_wf_run: "tone_wf s \<Longrightarrow> tone_wf (run ts s)"
  by (induction ts arbitrary: s) (simp_all add: tone_wf_loop)


section \<open>The tone machine: every phase runs to its deadline\<close>

lemma stored_deadline:
  "toneTimer (store_timer (timer_after c d) s) = deadline c d"
  by (simp add: store_timer_def deadline_def)

lemma observe_step:
  assumes "tone_inv prev lo s" and "lo \<le> millis t"
  shows "tone_step prev (millis t) (loop t s) (observe t s)"
proof (cases prev)
  case None
  with assms show ?thesis
    by (auto simp: tone_step_def observe_def loop_eq tone_simps element_time_def deadline_def)
next
  case (Some p)
  show ?thesis
  proof (cases p)
    case (Start c e)
    with Some assms show ?thesis
      by (auto simp: tone_step_def observe_def loop_eq tone_simps element_time_def
          deadline_def)
  next
    case (Stop c)
    with Some assms show ?thesis
      by (auto simp: tone_step_def observe_def loop_eq tone_simps element_time_def
          deadline_def)
  qed
qed

lemma gaps_ok_trace:
  assumes "tone_inv prev lo s" and "sorted (map millis ts)" and "\<forall>t\<in>set ts. lo \<le> millis t"
  shows "gaps_ok ((case prev of None \<Rightarrow> [] | Some p \<Rightarrow> [p]) @ trace ts s)"
  using assms
proof (induction ts arbitrary: prev lo s)
  case Nil
  then show ?case by (simp split: option.split)
next
  case (Cons t ts)
  have lo: "lo \<le> millis t" using Cons.prems(3) by simp
  have srt: "sorted (map millis ts)" and lb: "\<forall>u\<in>set ts. millis t \<le> millis u"
    using Cons.prems(2) by simp_all
  have step: "tone_step prev (millis t) (loop t s) (observe t s)"
    by (rule observe_step [OF Cons.prems(1) lo])
  show ?case
  proof (cases "observe t s = []")
    case True
    with step have "tone_inv prev (millis t) (loop t s)"
      by (simp add: tone_step_def)
    from Cons.IH [OF this srt lb] True show ?thesis by simp
  next
    case False
    with step obtain ev where ev: "observe t s = [ev]"
      and fol: "\<forall>p. prev = Some p \<longrightarrow> follows p ev"
      and inv: "tone_inv (Some ev) (millis t) (loop t s)"
      by (auto simp: tone_step_def)
    from Cons.IH [OF inv srt lb] have "gaps_ok (ev # trace ts (loop t s))" by simp
    with fol ev show ?thesis by (simp split: option.split)
  qed
qed

lemma gaps_ok_started_up:
  assumes "sorted (map millis ts)"
  shows "gaps_ok (trace ts started_up)"
proof -
  have "tone_inv None 0 started_up"
    by (simp add: started_up_eq state_defs)
  from gaps_ok_trace [OF this assms] show ?thesis by simp
qed

lemma gaps_ok_nth:
  "gaps_ok evs \<Longrightarrow> Suc i < length evs \<Longrightarrow> follows (evs ! i) (evs ! Suc i)"
proof (induction evs arbitrary: i rule: gaps_ok.induct)
  case (1 a b evs)
  then show ?case by (cases i) simp_all
qed simp_all

lemma follows_Stop:
  "follows (Stop c) ev \<Longrightarrow> \<exists>c' e. ev = Start c' e \<and> deadline c DIT_TIME < c'"
  by (cases ev) simp_all

text \<open>Every event carries the clock reading of a tick of the run.\<close>

lemma observe_clock: "ev \<in> set (observe t s) \<Longrightarrow> clock_of ev = millis t"
  by (auto simp: observe_def split: if_splits)

lemma trace_clocks: "ev \<in> set (trace ts s) \<Longrightarrow> clock_of ev \<in> millis ` set ts"
proof (induction ts arbitrary: s)
  case Nil
  then show ?case by simp
next
  case (Cons t ts)
  then show ?case by (auto dest: observe_clock)
qed




section \<open>The squeeze\<close>

lemma squeeze_main:
  assumes "squeeze_inv s" and "d" and "h"
  shows "state (updateMainState d h s) = DIT_DAH_INPUT \<and>
         (toneType (updateMainState d h s) = DIT_DAH \<or>
          toneType (updateMainState d h s) = DAH_DIT)"
  using assms by (auto simp: squeeze_inv_def updateMainState_def state_defs tone_defs)

lemma squeeze_tone:
  assumes "toneState s = TONE_ON \<and> sounding s \<or> toneState s = TONE_PAUSE \<and> \<not> sounding s"
    and "lastTone s = DIT \<or> lastTone s = DAH"
    and "tt = DIT_DAH \<or> tt = DAH_DIT"
  shows "let s' = snd (updateToneState tt now s) in
           (toneState s' = TONE_ON \<and> sounding s' \<or>
            toneState s' = TONE_PAUSE \<and> \<not> sounding s') \<and>
           (if \<not> sounding s \<and> sounding s' then lastTone s' = other (lastTone s)
            else lastTone s' = lastTone s)"
  using assms by (auto simp: tone_simps other_def Let_def)

lemma squeeze_step:
  assumes inv: "squeeze_inv s" and keys: "ditKey t \<and> dahKey t"
  shows "squeeze_inv (loop t s) \<and>
         (elements (observe t s) = [] \<and> lastTone (loop t s) = lastTone s \<or>
          elements (observe t s) = [other (lastTone s)] \<and>
          lastTone (loop t s) = other (lastTone s))"
proof -
  let ?s2 = "updateMainState (ditKey t) (dahKey t) (updateCommands (speedCmd t) s)"
  have sq: "squeeze_inv (updateCommands (speedCmd t) s)"
    using inv by (simp add: squeeze_inv_def)
  have m: "state ?s2 = DIT_DAH_INPUT \<and> (toneType ?s2 = DIT_DAH \<or> toneType ?s2 = DAH_DIT)"
    using squeeze_main [OF sq] keys by simp
  have a: "toneState ?s2 = TONE_ON \<and> sounding ?s2 \<or>
           toneState ?s2 = TONE_PAUSE \<and> \<not> sounding ?s2"
    and b: "lastTone ?s2 = DIT \<or> lastTone ?s2 = DAH"
    using inv by (simp_all add: squeeze_inv_def)
  have l: "loop t s = snd (updateToneState (toneType ?s2) (millis t) ?s2)"
    by (rule loop_eq)
  have st: "state (loop t s) = state ?s2" "toneType (loop t s) = toneType ?s2"
    unfolding l by simp_all
  from squeeze_tone [OF a b conjunct2 [OF m], of "millis t"]
  have t: "(toneState (loop t s) = TONE_ON \<and> sounding (loop t s) \<or>
            toneState (loop t s) = TONE_PAUSE \<and> \<not> sounding (loop t s)) \<and>
           (if \<not> sounding s \<and> sounding (loop t s)
            then lastTone (loop t s) = other (lastTone s)
            else lastTone (loop t s) = lastTone s)"
    unfolding l by (simp add: Let_def)
  have lt: "lastTone (loop t s) = DIT \<or> lastTone (loop t s) = DAH"
    using t b by (auto simp: other_def split: if_splits)
  have "squeeze_inv (loop t s)"
    using m st t lt by (simp add: squeeze_inv_def)
  moreover have "elements (observe t s) = [] \<and> lastTone (loop t s) = lastTone s \<or>
          elements (observe t s) = [other (lastTone s)] \<and>
          lastTone (loop t s) = other (lastTone s)"
    using t by (auto simp: observe_def split: if_splits)
  ultimately show ?thesis ..
qed

lemma squeeze_elements:
  assumes "squeeze_inv s" and "\<forall>t\<in>set ts. ditKey t \<and> dahKey t"
  shows "\<exists>n. elements (trace ts s) = alternation (other (lastTone s)) n"
  using assms
proof (induction ts arbitrary: s)
  case Nil
  have "elements (trace [] s) = alternation (other (lastTone s)) 0" by simp
  then show ?case ..
next
  case (Cons t ts)
  have keys: "ditKey t \<and> dahKey t" and rest: "\<forall>u\<in>set ts. ditKey u \<and> dahKey u"
    using Cons.prems(2) by simp_all
  from squeeze_step [OF Cons.prems(1) keys]
  have inv: "squeeze_inv (loop t s)"
    and ev: "elements (observe t s) = [] \<and> lastTone (loop t s) = lastTone s \<or>
          elements (observe t s) = [other (lastTone s)] \<and>
          lastTone (loop t s) = other (lastTone s)"
    by simp_all
  from Cons.IH [OF inv rest] obtain n
    where n: "elements (trace ts (loop t s)) = alternation (other (lastTone (loop t s))) n" ..
  from ev show ?case
  proof
    assume "elements (observe t s) = [] \<and> lastTone (loop t s) = lastTone s"
    with n have "elements (trace (t # ts) s) = alternation (other (lastTone s)) n"
      by (simp add: elements_append)
    then show ?thesis ..
  next
    assume "elements (observe t s) = [other (lastTone s)] \<and>
          lastTone (loop t s) = other (lastTone s)"
    with n have "elements (trace (t # ts) s) = alternation (other (lastTone s)) (Suc n)"
      by (simp add: elements_append)
    then show ?thesis ..
  qed
qed

text \<open>
  When the second paddle closes while the tone machine is idle, the first pass of
  \<open>loop\<close> starts the element of the paddle that was seen first.
\<close>

lemma idle_squeeze_step:
  assumes "state s = DIT_INPUT \<and> e = DIT \<or> state s = DAH_INPUT \<and> e = DAH"
    and "toneState s = IDLE_STATE" and "\<not> sounding s" and "ditKey t \<and> dahKey t"
  shows "squeeze_inv (loop t s) \<and> lastTone (loop t s) = e \<and>
         observe t s = [Start (millis t) e]"
  using assms
  by (auto simp: squeeze_inv_def observe_def loop_eq updateMainState_def tone_simps)

text \<open>
  The squeeze in general.  In any state in which one paddle alone is being sent,
  whatever happened before, holding both paddles from then on gives the alternating
  sequence that begins with the element of that paddle: it consists of that element
  if it (or its pause) is in progress, and of the elements that start from then on.
  If the tone machine is idle, the first of them starts at once.
\<close>

lemma squeeze_from:
  assumes first: "state s = DIT_INPUT \<and> e = DIT \<or> state s = DAH_INPUT \<and> e = DAH"
    and inv: "main_inv s" and wf: "tone_wf s"
    and both: "\<forall>t\<in>set sq. ditKey t \<and> dahKey t"
  shows "\<exists>m. in_progress e s @ elements (trace sq s) = alternation e m \<and>
             (toneState s = IDLE_STATE \<and> sq \<noteq> [] \<longrightarrow> 0 < m)"
proof (cases "toneState s = IDLE_STATE")
  case True
  then have silent: "\<not> sounding s"
    using wf by (auto simp: tone_wf_def state_defs)
  show ?thesis
  proof (cases sq)
    case Nil
    with True have "in_progress e s @ elements (trace sq s) = alternation e 0 \<and>
             (toneState s = IDLE_STATE \<and> sq \<noteq> [] \<longrightarrow> 0 < (0::nat))"
      by (simp add: in_progress_def)
    then show ?thesis ..
  next
    case (Cons t rest)
    with both have keys: "ditKey t \<and> dahKey t"
      and more: "\<forall>u\<in>set rest. ditKey u \<and> dahKey u"
      by simp_all
    from idle_squeeze_step [OF first True silent keys]
    have sq1: "squeeze_inv (loop t s)" and l1: "lastTone (loop t s) = e"
      and o1: "observe t s = [Start (millis t) e]"
      by simp_all
    from squeeze_elements [OF sq1 more] obtain n
      where "elements (trace rest (loop t s)) = alternation (other e) n"
      unfolding l1 ..
    with True Cons o1
    have "in_progress e s @ elements (trace sq s) = alternation e (Suc n) \<and>
             (toneState s = IDLE_STATE \<and> sq \<noteq> [] \<longrightarrow> 0 < Suc n)"
      by (simp add: in_progress_def)
    then show ?thesis ..
  qed
next
  case False
  with wf have busy: "toneState s = TONE_ON \<and> sounding s \<or>
                      toneState s = TONE_PAUSE \<and> \<not> sounding s"
    and last: "lastTone s = DIT \<or> lastTone s = DAH"
    by (auto simp: tone_wf_def)
  from first inv have "state s = DIT_INPUT \<and> toneType s = DIT \<or>
                       state s = DAH_INPUT \<and> toneType s = DAH"
    by (auto simp: main_inv_def state_defs)
  with busy last have "squeeze_inv s"
    unfolding squeeze_inv_def by blast
  from squeeze_elements [OF this both] obtain n
    where n: "elements (trace sq s) = alternation (other (lastTone s)) n" ..
  from first have e: "e = DIT \<or> e = DAH" by auto
  show ?thesis
  proof (cases "lastTone s = e")
    case True
    with n False
    have "in_progress e s @ elements (trace sq s) = alternation e (Suc n) \<and>
             (toneState s = IDLE_STATE \<and> sq \<noteq> [] \<longrightarrow> 0 < Suc n)"
      by (simp add: in_progress_def)
    then show ?thesis ..
  next
    case diff: False
    with last e have "other (lastTone s) = e"
      by (auto simp: other_def tone_defs)
    with n False diff
    have "in_progress e s @ elements (trace sq s) = alternation e n \<and>
             (toneState s = IDLE_STATE \<and> sq \<noteq> [] \<longrightarrow> 0 < n)"
      by (simp add: in_progress_def)
    then show ?thesis ..
  qed
qed

lemma squeeze_from_start_up:
  assumes "state (run pre started_up) = DIT_INPUT \<and> e = DIT \<or>
           state (run pre started_up) = DAH_INPUT \<and> e = DAH"
    and "\<forall>t\<in>set sq. ditKey t \<and> dahKey t"
  shows "\<exists>m. in_progress e (run pre started_up) @
               elements (trace sq (run pre started_up)) = alternation e m \<and>
             (toneState (run pre started_up) = IDLE_STATE \<and> sq \<noteq> [] \<longrightarrow> 0 < m)"
  using assms(1) main_inv_run [OF main_inv_started_up] tone_wf_run [OF tone_wf_started_up]
    assms(2)
  by (rule squeeze_from)


section \<open>The claims\<close>

subsection \<open>C1: a speed change and the elements that follow it\<close>

text \<open>
  C1.  When \<open>setWordSpeed\<close> is called while an element sounds, that element and its
  pause keep their duration, and every element whose deadline is computed afterwards
  is to use the new \<open>ditTime\<close> and \<open>dahTime\<close>.  The first half holds; the second does
  not: the tone machine computes every deadline from the macros \<open>DIT_TIME\<close> and
  \<open>DAH_TIME\<close> and never reads the two variables.  In the run below the speed is set to
  10 words per minute at 10 ms, which makes \<open>ditTime\<close> 120 and \<open>dahTime\<close> 360; the dit
  in progress stops at the first tick past its deadline of 60 ms and its pause ends
  past 121 ms, and the next dit, started at 123 ms, gets the deadline 183, not 243.
\<close>

theorem speed_change_ignored:
  "ditTime (run speed_change_run started_up) = 120 \<and>
   dahTime (run speed_change_run started_up) = 360 \<and>
   trace speed_change_run started_up = [Start 0 DIT, Stop 61, Start 123 DIT] \<and>
   toneState (run speed_change_run started_up) = TONE_ON \<and>
   toneTimer (run speed_change_run started_up) = 123 + 60 \<and>
   toneTimer (run speed_change_run started_up) \<noteq>
     123 + of_nat (ditTime (run speed_change_run started_up))"
  by (simp add: speed_change_run_def started_up_eq observe_def run_simps)


subsection \<open>C2: the dit time of a speed\<close>

text \<open>
  C2.  \<open>setWordSpeed\<close> is to give a dit time of \<open>1000 * (60 / wpm) / 50\<close> ms: 60 (and a
  dah time of 180) at 20 words per minute, 120 at 10, and 30 at 40.  The sketch gives
  60, 180 and 120, but 20 at 40 words per minute (and a dah time of 60): the word time
  60 / 40 = 1.5 s is cut to a whole second before the dit time is computed.
\<close>

theorem setWordSpeed_values:
  "ditTime (setWordSpeed 20 s) = 60 \<and> dahTime (setWordSpeed 20 s) = 180 \<and>
   ditTime (setWordSpeed 10 s) = 120 \<and>
   ditTime (setWordSpeed 40 s) = 20 \<and> dahTime (setWordSpeed 40 s) = 60"
  by (simp add: setWordSpeed_eq)


subsection \<open>C3: releasing a paddle during a squeeze\<close>

text \<open>
  C3.  In state \<open>DIT_DAH_INPUT\<close>, a tick on which at least one paddle reads open sets
  the tone pattern to \<open>QUIET\<close> and the state to \<open>IDLE_STATE\<close>; no tick takes the state
  from \<open>DIT_DAH_INPUT\<close> to \<open>DIT_INPUT\<close> or \<open>DAH_INPUT\<close>.
\<close>

theorem squeeze_release_idles:
  assumes "state s = DIT_DAH_INPUT"
  shows "(\<not> d \<or> \<not> h \<longrightarrow>
            updateMainState d h s = s\<lparr>toneType := QUIET, state := IDLE_STATE\<rparr>) \<and>
         state (updateMainState d h s) \<noteq> DIT_INPUT \<and>
         state (updateMainState d h s) \<noteq> DAH_INPUT"
  using assms by (simp add: updateMainState_def state_defs)

theorem squeeze_release_idles_witness:
  "state squeezing = DIT_DAH_INPUT \<and>
   updateMainState True False squeezing = squeezing\<lparr>toneType := QUIET, state := IDLE_STATE\<rparr> \<and>
   state (updateMainState True False squeezing) \<noteq> DIT_INPUT \<and>
   state (updateMainState True False squeezing) \<noteq> DAH_INPUT"
proof -
  have h: "state squeezing = DIT_DAH_INPUT"
    by (simp add: squeezing_eq state_defs)
  from squeeze_release_idles [OF h, of True False] h show ?thesis by blast
qed


subsection \<open>C4: alternation in a squeeze\<close>

text \<open>
  C4.  In \<open>TONE_PAUSE\<close>, once the clock has passed the deadline and the tone pattern is
  \<open>DIT_DAH\<close> or \<open>DAH_DIT\<close>: if \<open>lastTone\<close> is \<open>DIT\<close> a dah starts (deadline: the clock plus
  the dah duration, \<open>lastTone\<close> becomes \<open>DAH\<close>), otherwise a dit starts (deadline: the
  clock plus the dit duration, \<open>lastTone\<close> becomes \<open>DIT\<close>); the state becomes \<open>TONE_ON\<close>;
  so a squeeze that the dit paddle began gives Dit, Dah, Dit, Dah, ...

  The elements alternate as the claim says (\<open>squeeze_from_start_up\<close> above), but the
  deadline is not the clock plus the duration.  The sketch adds in single precision:
  in the pause of the squeeze below, at the clock reading 16777217 with a dah
  duration of 180, the dah that starts gets the deadline 16777396 and not 16777397.
  And the sketch adds the macro, not the variable: after \<open>setWordSpeed(10)\<close>, which
  makes the dah duration 360, the dah that starts at 162 ms gets the deadline
  162 + 180.
\<close>

theorem squeeze_deadline_rounded:
  "toneState late_pause = TONE_PAUSE \<and> toneTimer late_pause < 16777217 \<and>
   lastTone late_pause = DIT \<and> dahTime late_pause = 180 \<and>
   lastTone (snd (updateToneState DIT_DAH 16777217 late_pause)) = DAH \<and>
   toneState (snd (updateToneState DIT_DAH 16777217 late_pause)) = TONE_ON \<and>
   toneTimer (snd (updateToneState DIT_DAH 16777217 late_pause)) = 16777396 \<and>
   toneTimer (snd (updateToneState DIT_DAH 16777217 late_pause)) \<noteq>
     16777217 + of_nat (dahTime late_pause) \<and>
   toneState (setWordSpeed 10 squeeze_pause) = TONE_PAUSE \<and>
   toneTimer (setWordSpeed 10 squeeze_pause) < 162 \<and>
   lastTone (setWordSpeed 10 squeeze_pause) = DIT \<and>
   dahTime (setWordSpeed 10 squeeze_pause) = 360 \<and>
   toneTimer (snd (updateToneState DIT_DAH 162 (setWordSpeed 10 squeeze_pause))) = 162 + 180"
  by (simp add: late_pause_eq squeeze_pause_eq setWordSpeed_eq tone_simps float_eval)


subsection \<open>C5: the end of a tone\<close>

text \<open>
  C5, as stated: in \<open>TONE_ON\<close>, a tick whose clock reading is at or past the deadline
  stops the tone, sets the deadline to the clock plus the dit duration and moves to
  \<open>TONE_PAUSE\<close>; a tick before the deadline does nothing.  The sketch compares with
  \<open>millis() > toneTimer\<close>, so the tick whose reading equals the deadline does nothing
  either: the dit below has its deadline at 100 ms and still sounds after the tick
  at 100 ms.
\<close>

theorem tone_on_at_deadline_counterexample:
  "toneState dit_sounding = TONE_ON \<and> 100 \<ge> toneTimer dit_sounding \<and>
   toneState (snd (updateToneState DIT 100 dit_sounding)) \<noteq> TONE_PAUSE \<and>
   sounding (snd (updateToneState DIT 100 dit_sounding))"
  by (simp add: dit_sounding_eq tone_simps)

text \<open>
  The new deadline is the clock plus \<open>ditTime\<close> only where two defects of the sketch do
  not show: the sum is the macro \<open>DIT_TIME\<close> and not the variable (the subject of C1),
  and it is a single-precision sum, rounded beyond \<open>2 ^ 24\<close>.
\<close>

lemma stop_deadline_rounded:
  assumes "toneState s = TONE_ON" and "toneTimer s < 16777217"
  shows "toneTimer (snd (updateToneState tt 16777217 s)) = 16777276"
  using assms by (simp add: tone_simps timer_after_rounds)

lemma stop_deadline_ignores_ditTime:
  assumes "toneState s = TONE_ON" and "toneTimer s < 101"
  shows "toneTimer (snd (updateToneState tt 101 (setWordSpeed 10 s))) = 101 + 60"
    and "ditTime (setWordSpeed 10 s) = 120"
  using assms by (simp_all add: setWordSpeed_eq tone_simps float_eval)

text \<open>
  C5, amended: in \<open>TONE_ON\<close>, a tick whose clock reading is past the deadline stops the
  tone and moves to \<open>TONE_PAUSE\<close> with a new deadline; a tick whose reading is at or
  before the deadline does nothing.  The new deadline is the clock plus the dit
  duration \<open>ditTime\<close> as long as the durations are the ones configured at start-up and
  the sum does not exceed \<open>2 ^ 24\<close>; nothing is said about it otherwise.
\<close>

theorem tone_stops_after_deadline:
  assumes "toneState s = TONE_ON"
  shows "(toneTimer s < now \<longrightarrow>
            \<not> fst (updateToneState tt now s) \<and>
            toneState (snd (updateToneState tt now s)) = TONE_PAUSE \<and>
            \<not> sounding (snd (updateToneState tt now s)) \<and>
            lastTone (snd (updateToneState tt now s)) = lastTone s \<and>
            (start_up_speed s \<and> unat now + ditTime s \<le> 2 ^ 24 \<longrightarrow>
               updateToneState tt now s =
                 (False, s\<lparr>sounding := False, toneTimer := now + of_nat (ditTime s),
                           toneState := TONE_PAUSE\<rparr>))) \<and>
         (now \<le> toneTimer s \<longrightarrow> updateToneState tt now s = (False, s))"
proof (intro conjI impI)
  assume past: "toneTimer s < now"
    and "start_up_speed s \<and> unat now + ditTime s \<le> 2 ^ 24"
  then have d: "ditTime s = to_ulong DIT_TIME" and r: "unat now + to_ulong DIT_TIME \<le> 2 ^ 24"
    by (simp_all add: start_up_speed_def started_up_eq to_ulong_DIT)
  from r have "\<not> 2 ^ 32 \<le> timer_after now DIT_TIME"
    by (rule not_undefined_exact)
  with assms past show "updateToneState tt now s =
      (False, s\<lparr>sounding := False, toneTimer := now + of_nat (ditTime s),
                toneState := TONE_PAUSE\<rparr>)"
    by (simp add: tone_simps timer_after_exact [OF r] d)
qed (use assms in \<open>auto simp: tone_simps\<close>)

theorem tone_stops_after_deadline_witness:
  "toneState dit_sounding = TONE_ON \<and> toneTimer dit_sounding < 101 \<and>
   start_up_speed dit_sounding \<and> unat (101 :: 32 word) + ditTime dit_sounding \<le> 2 ^ 24 \<and>
   updateToneState DIT 101 dit_sounding =
     (False, dit_sounding\<lparr>sounding := False, toneTimer := 161, toneState := TONE_PAUSE\<rparr>) \<and>
   100 \<le> toneTimer dit_sounding \<and>
   updateToneState DIT 100 dit_sounding = (False, dit_sounding)"
proof -
  have h: "toneState dit_sounding = TONE_ON"
    by (simp add: dit_sounding_eq state_defs)
  have t: "toneTimer dit_sounding < 101 \<and> 100 \<le> toneTimer dit_sounding"
    by (simp add: dit_sounding_eq)
  have c: "start_up_speed dit_sounding \<and> unat (101 :: 32 word) + ditTime dit_sounding \<le> 2 ^ 24"
    by (simp add: start_up_speed_def dit_sounding_eq started_up_eq)
  have d: "101 + of_nat (ditTime dit_sounding) = (161 :: 32 word)"
    by (simp add: dit_sounding_eq)
  have 1: "updateToneState DIT 101 dit_sounding =
     (False, dit_sounding\<lparr>sounding := False, toneTimer := 161, toneState := TONE_PAUSE\<rparr>)"
    using tone_stops_after_deadline [OF h, of 101 DIT] t c unfolding d by blast
  have 2: "updateToneState DIT 100 dit_sounding = (False, dit_sounding)"
    using tone_stops_after_deadline [OF h, of 100 DIT] t by blast
  from h t c 1 2 show ?thesis by blast
qed


subsection \<open>C6: the pause after every element\<close>

text \<open>
  C6, as stated: after every element the tone machine holds a pause of exactly one
  dit duration before a new element starts.  The pause is never exactly one dit
  duration: its deadline is one dit duration after the stop, and the sketch waits
  until the clock is past the deadline.  In the squeeze below the dit stops at
  61 ms; the loop comes by at 121 ms, one dit duration later, and leaves the pause
  alone; the dah starts at 122 ms.
\<close>

theorem pause_at_one_dit_counterexample:
  "trace exact_tick_run started_up = [Start 0 DIT, Stop 61, Start 122 DAH] \<and>
   millis (exact_tick_run ! 3) = 61 + of_nat (ditTime started_up) \<and>
   122 \<noteq> (61 :: 32 word) + of_nat (ditTime started_up)"
  by (simp add: exact_tick_trace) (simp add: exact_tick_run_def started_up_eq)

text \<open>
  C6, amended: after every element the tone machine holds a pause of more than one
  dit duration before a new element starts, the same after a dit and after a dah: when
  the tone stops the pause gets a deadline, whatever \<open>lastTone\<close> is; nothing happens in
  \<open>TONE_PAUSE\<close> until the clock has passed that deadline, and the first tick past it
  ends the pause.  The deadline is the clock plus the dit duration \<open>ditTime\<close> as long
  as the durations are the ones configured at start-up and the sum does not exceed
  \<open>2 ^ 24\<close>.  So in every run from start-up in which the speed is not set again, the
  clock does not go backwards and stays in the range in which the sums are exact, the
  event after a stop is a start more than one dit duration later.  Nothing is said
  about the other runs, where the two defects named under C5 show.
\<close>

theorem pause_after_every_element:
  "(toneState s = TONE_ON \<and> toneTimer s < now \<longrightarrow>
      toneState (snd (updateToneState tt now s)) = TONE_PAUSE \<and>
      \<not> sounding (snd (updateToneState tt now s)) \<and>
      (start_up_speed s \<and> unat now + ditTime s \<le> 2 ^ 24 \<longrightarrow>
         unat (toneTimer (snd (updateToneState tt now s))) = unat now + ditTime s)) \<and>
   (toneState s = TONE_PAUSE \<and> now \<le> toneTimer s \<longrightarrow>
      snd (updateToneState tt now s) = s) \<and>
   (toneState s = TONE_PAUSE \<and> toneTimer s < now \<and>
    tt \<in> {QUIET, DIT, DAH, DIT_DAH, DAH_DIT} \<longrightarrow>
      toneState (snd (updateToneState tt now s)) \<noteq> TONE_PAUSE) \<and>
   (sorted (map millis ts) \<and>
    (\<forall>t\<in>set ts. speedCmd t = None \<and> exact_range (millis t)) \<and>
    Suc i < length (trace ts started_up) \<and> trace ts started_up ! i = Stop c \<longrightarrow>
      (\<exists>c' e. trace ts started_up ! Suc i = Start c' e \<and>
              unat c + ditTime started_up < unat c'))"
proof (intro conjI impI)
  assume a: "toneState s = TONE_ON \<and> toneTimer s < now"
    and "start_up_speed s \<and> unat now + ditTime s \<le> 2 ^ 24"
  then have d: "ditTime s = to_ulong DIT_TIME" and r: "unat now + to_ulong DIT_TIME \<le> 2 ^ 24"
    by (simp_all add: start_up_speed_def started_up_eq to_ulong_DIT)
  from a have "toneTimer (snd (updateToneState tt now s)) = deadline now DIT_TIME"
    by (simp add: tone_simps deadline_def)
  with deadline_exact(2) [OF r] d
  show "unat (toneTimer (snd (updateToneState tt now s))) = unat now + ditTime s"
    by simp
next
  assume a: "sorted (map millis ts) \<and>
    (\<forall>t\<in>set ts. speedCmd t = None \<and> exact_range (millis t)) \<and>
    Suc i < length (trace ts started_up) \<and> trace ts started_up ! i = Stop c"
  then have "gaps_ok (trace ts started_up)"
    by (intro gaps_ok_started_up) simp
  with a have "follows (Stop c) (trace ts started_up ! Suc i)"
    using gaps_ok_nth [of "trace ts started_up" i] by simp
  then obtain c' e where next_ev: "trace ts started_up ! Suc i = Start c' e"
    and late: "deadline c DIT_TIME < c'"
    using follows_Stop by blast
  from a have "Stop c \<in> set (trace ts started_up)"
    by (metis Suc_lessD nth_mem)
  then have "clock_of (Stop c) \<in> millis ` set ts"
    by (rule trace_clocks)
  with a have "exact_range c" by auto
  then have "unat c + to_ulong DIT_TIME \<le> 2 ^ 24"
    by (simp add: exact_range_def to_ulong_DIT to_ulong_DAH)
  then have "unat (deadline c DIT_TIME) = unat c + to_ulong DIT_TIME"
    by (rule deadline_exact(2))
  with late have "unat c + ditTime started_up < unat c'"
    by (simp add: word_less_nat_alt started_up_eq to_ulong_DIT)
  with next_ev
  show "\<exists>c' e. trace ts started_up ! Suc i = Start c' e \<and>
               unat c + ditTime started_up < unat c'"
    by blast
qed (auto simp: tone_simps)

theorem pause_after_every_element_witness:
  "toneState dah_sounding = TONE_ON \<and> toneTimer dah_sounding < 221 \<and>
   start_up_speed dah_sounding \<and> unat (221 :: 32 word) + ditTime dah_sounding \<le> 2 ^ 24 \<and>
   toneState (snd (updateToneState DAH 221 dah_sounding)) = TONE_PAUSE \<and>
   \<not> sounding (snd (updateToneState DAH 221 dah_sounding)) \<and>
   unat (toneTimer (snd (updateToneState DAH 221 dah_sounding))) =
     unat (221 :: 32 word) + ditTime dah_sounding \<and>
   toneState dit_pausing = TONE_PAUSE \<and> 161 \<le> toneTimer dit_pausing \<and>
   snd (updateToneState DIT 161 dit_pausing) = dit_pausing \<and>
   toneTimer dit_pausing < 162 \<and>
   toneState (snd (updateToneState DIT 162 dit_pausing)) \<noteq> TONE_PAUSE \<and>
   sorted (map millis dah_run) \<and> Suc 1 < length (trace dah_run started_up) \<and>
   trace dah_run started_up ! 1 = Stop 181 \<and>
   (\<exists>c' e. trace dah_run started_up ! Suc 1 = Start c' e \<and>
           unat (181 :: 32 word) + ditTime started_up < unat c')"
proof -
  have a: "toneState dah_sounding = TONE_ON \<and> toneTimer dah_sounding < 221"
    by (simp add: dah_sounding_eq state_defs)
  have a': "start_up_speed dah_sounding \<and>
            unat (221 :: 32 word) + ditTime dah_sounding \<le> 2 ^ 24"
    by (simp add: start_up_speed_def dah_sounding_eq started_up_eq)
  have b: "toneState dit_pausing = TONE_PAUSE \<and> 161 \<le> toneTimer dit_pausing \<and>
           toneTimer dit_pausing < 162"
    by (simp add: dit_pausing_eq state_defs)
  have m: "DIT \<in> {QUIET, DIT, DAH, DIT_DAH, DAH_DIT}"
    by simp
  have r: "sorted (map millis dah_run) \<and> Suc 1 < length (trace dah_run started_up) \<and>
           trace dah_run started_up ! 1 = Stop 181"
    by (simp add: dah_trace) (simp add: dah_run_def)
  have q: "\<forall>t\<in>set dah_run. speedCmd t = None \<and> exact_range (millis t)"
    by (simp add: dah_run_def exact_range_def to_ulong_DAH)
  have 1: "toneState (snd (updateToneState DAH 221 dah_sounding)) = TONE_PAUSE \<and>
           \<not> sounding (snd (updateToneState DAH 221 dah_sounding)) \<and>
           unat (toneTimer (snd (updateToneState DAH 221 dah_sounding))) =
             unat (221 :: 32 word) + ditTime dah_sounding"
    using pause_after_every_element [of dah_sounding 221 DAH dah_run 1 181] a a' by blast
  have 2: "snd (updateToneState DIT 161 dit_pausing) = dit_pausing"
    using pause_after_every_element [of dit_pausing 161 DIT dah_run 1 181] b by blast
  have 3: "toneState (snd (updateToneState DIT 162 dit_pausing)) \<noteq> TONE_PAUSE"
    using pause_after_every_element [of dit_pausing 162 DIT dah_run 1 181] b m by blast
  have 4: "\<exists>c' e. trace dah_run started_up ! Suc 1 = Start c' e \<and>
                  unat (181 :: 32 word) + ditTime started_up < unat c'"
    using pause_after_every_element [of dit_pausing 162 DIT dah_run 1 181] r q by blast
  from a a' b r 1 2 3 4 show ?thesis by blast
qed


subsection \<open>C7: the tone pattern in the middle of a phase\<close>




subsection \<open>C8: the return value\<close>

text \<open>
  C8.  \<open>updateToneState\<close> returns true exactly on the tick that takes it from
  \<open>TONE_PAUSE\<close> to \<open>IDLE_STATE\<close>, that is, when the clock has passed the pause deadline
  and the tone pattern is \<open>QUIET\<close>, \<open>DIT\<close> or \<open>DAH\<close>; on every other tick, and on every
  tick with the pattern \<open>DIT_DAH\<close> or \<open>DAH_DIT\<close>, it returns false.
\<close>

theorem done_iff_pause_ends:
  "(fst (updateToneState tt now s) \<longleftrightarrow>
      toneState s = TONE_PAUSE \<and> toneTimer s < now \<and> (tt = QUIET \<or> tt = DIT \<or> tt = DAH)) \<and>
   (fst (updateToneState tt now s) \<longleftrightarrow>
      toneState s = TONE_PAUSE \<and> toneState (snd (updateToneState tt now s)) = IDLE_STATE) \<and>
   (tt = DIT_DAH \<or> tt = DAH_DIT \<longrightarrow> \<not> fst (updateToneState tt now s))"
  by (simp add: tone_simps)

theorem done_iff_pause_ends_witness:
  "fst (updateToneState DIT 162 dit_pausing) \<and>
   toneState dit_pausing = TONE_PAUSE \<and> toneTimer dit_pausing < 162 \<and>
   toneState (snd (updateToneState DIT 162 dit_pausing)) = IDLE_STATE \<and>
   \<not> fst (updateToneState DIT_DAH 162 dit_pausing) \<and>
   \<not> fst (updateToneState DIT 161 dit_pausing)"
proof -
  have a: "toneState dit_pausing = TONE_PAUSE \<and> toneTimer dit_pausing < 162 \<and>
           \<not> toneTimer dit_pausing < 161"
    by (simp add: dit_pausing_eq state_defs)
  have 1: "fst (updateToneState DIT 162 dit_pausing)"
    using done_iff_pause_ends [of DIT 162 dit_pausing] a by blast
  have 2: "toneState (snd (updateToneState DIT 162 dit_pausing)) = IDLE_STATE"
    using done_iff_pause_ends [of DIT 162 dit_pausing] 1 by blast
  have 3: "\<not> fst (updateToneState DIT_DAH 162 dit_pausing)"
    using done_iff_pause_ends [of DIT_DAH 162 dit_pausing] by blast
  have 4: "\<not> fst (updateToneState DIT 161 dit_pausing)"
    using done_iff_pause_ends [of DIT 161 dit_pausing] a by blast
  from a 1 2 3 4 show ?thesis by blast
qed


subsection \<open>C9: only the opposite paddle is held\<close>

text \<open>
  C9.  In every state reached from start-up: in \<open>DIT_INPUT\<close>, with the dit paddle open
  and the dah paddle closed, the tone pattern is \<open>DIT\<close> and a tick changes neither it
  nor the state; in \<open>DAH_INPUT\<close>, with only the dit paddle closed, the pattern is \<open>DAH\<close>
  and a tick changes neither it nor the state.
\<close>

theorem opposite_paddle_keeps_sending:
  "(state (run ts started_up) = DIT_INPUT \<and> \<not> d \<and> h \<longrightarrow>
      toneType (run ts started_up) = DIT \<and>
      updateMainState d h (run ts started_up) = run ts started_up) \<and>
   (state (run ts started_up) = DAH_INPUT \<and> d \<and> \<not> h \<longrightarrow>
      toneType (run ts started_up) = DAH \<and>
      updateMainState d h (run ts started_up) = run ts started_up)"
proof -
  have "main_inv (run ts started_up)"
    by (rule main_inv_run [OF main_inv_started_up])
  then show ?thesis
    by (auto simp: main_inv_def updateMainState_def state_defs)
qed

theorem opposite_paddle_keeps_sending_witness:
  "state (run [dit_tick] started_up) = DIT_INPUT \<and>
   toneType (run [dit_tick] started_up) = DIT \<and>
   updateMainState False True (run [dit_tick] started_up) = run [dit_tick] started_up \<and>
   state (run [\<lparr>speedCmd = None, ditKey = False, dahKey = True, millis = 40\<rparr>] started_up)
     = DAH_INPUT \<and>
   toneType (run [\<lparr>speedCmd = None, ditKey = False, dahKey = True, millis = 40\<rparr>] started_up)
     = DAH \<and>
   updateMainState True False
     (run [\<lparr>speedCmd = None, ditKey = False, dahKey = True, millis = 40\<rparr>] started_up)
     = run [\<lparr>speedCmd = None, ditKey = False, dahKey = True, millis = 40\<rparr>] started_up"
proof -
  have a: "run [dit_tick] started_up = dit_sounding"
    by (simp add: dit_sounding_def)
  have b: "run [\<lparr>speedCmd = None, ditKey = False, dahKey = True, millis = 40\<rparr>] started_up
           = dah_sounding"
    by (simp add: dah_sounding_def)
  have c: "state dit_sounding = DIT_INPUT \<and> state dah_sounding = DAH_INPUT"
    by (simp add: dit_sounding_eq dah_sounding_eq state_defs)
  from opposite_paddle_keeps_sending [of "[dit_tick]" False True]
       opposite_paddle_keeps_sending
         [of "[\<lparr>speedCmd = None, ditKey = False, dahKey = True, millis = 40\<rparr>]" True False]
       c
  show ?thesis unfolding a b by simp
qed


subsection \<open>C10: the paddle states that are reached\<close>

text \<open>
  C10.  After \<open>setup()\<close> and any number of passes of \<open>loop\<close>, \<open>state\<close> is one of
  \<open>IDLE_STATE\<close>, \<open>DIT_INPUT\<close>, \<open>DAH_INPUT\<close> and \<open>DIT_DAH_INPUT\<close>, never \<open>DAH_DIT_INPUT\<close>:
  closing the second paddle leads to \<open>DIT_DAH_INPUT\<close> from \<open>DIT_INPUT\<close> (with the
  pattern \<open>DIT_DAH\<close>) and from \<open>DAH_INPUT\<close> (with the pattern \<open>DAH_DIT\<close>) alike.
\<close>

theorem paddle_states_reached:
  "state (run ts started_up) \<in> {IDLE_STATE, DIT_INPUT, DAH_INPUT, DIT_DAH_INPUT} \<and>
   state (run ts started_up) \<noteq> DAH_DIT_INPUT \<and>
   (state s = DIT_INPUT \<and> d \<and> h \<longrightarrow>
      updateMainState d h s = s\<lparr>toneType := DIT_DAH, state := DIT_DAH_INPUT\<rparr>) \<and>
   (state s = DAH_INPUT \<and> d \<and> h \<longrightarrow>
      updateMainState d h s = s\<lparr>toneType := DAH_DIT, state := DIT_DAH_INPUT\<rparr>)"
proof -
  have "main_inv (run ts started_up)"
    by (rule main_inv_run [OF main_inv_started_up])
  then have "state (run ts started_up) \<in> {IDLE_STATE, DIT_INPUT, DAH_INPUT, DIT_DAH_INPUT}"
    by (auto simp: main_inv_def)
  then show ?thesis
    by (auto simp: updateMainState_def state_defs)
qed

theorem paddle_states_reached_witness:
  "state (run [dit_tick, both_tick] started_up) = DIT_DAH_INPUT \<and>
   state (run [dit_tick, both_tick] started_up) \<noteq> DAH_DIT_INPUT \<and>
   state dit_sounding = DIT_INPUT \<and>
   updateMainState True True dit_sounding =
     dit_sounding\<lparr>toneType := DIT_DAH, state := DIT_DAH_INPUT\<rparr> \<and>
   state dah_sounding = DAH_INPUT \<and>
   updateMainState True True dah_sounding =
     dah_sounding\<lparr>toneType := DAH_DIT, state := DIT_DAH_INPUT\<rparr>"
proof -
  have a: "run [dit_tick, both_tick] started_up = squeezing"
    by (simp add: squeezing_def dit_sounding_def)
  have b: "state squeezing = DIT_DAH_INPUT"
    by (simp add: squeezing_eq state_defs)
  have c: "state dit_sounding = DIT_INPUT \<and> state dah_sounding = DAH_INPUT"
    by (simp add: dit_sounding_eq dah_sounding_eq state_defs)
  from paddle_states_reached [of "[dit_tick, both_tick]" dit_sounding True True]
       paddle_states_reached [of "[dit_tick, both_tick]" dah_sounding True True]
       b c
  show ?thesis unfolding a by simp
qed

end
